theory Spec2Isabelle
  imports Main "HOL-Library.Sublist"
begin

section \<open>The indexing utilities of haystack (\<open>haystack/indexing/utils.py\<close>)\<close>

text \<open>
  The module holds two functions: \<open>convert_files_to_documents\<close>, which walks a directory,
  reads every \<open>.txt\<close> and \<open>.pdf\<close> file and builds \<open>Document\<close> objects, and
  \<open>fetch_archive_from_http\<close>, which downloads an archive into an empty directory. Both
  work on the file system, so the file system is an explicit value of the model.
\<close>

subsection \<open>Errors\<close>

text \<open>
  Every exception that leaves one of the two functions is a value. \<open>Exception msg\<close> is
  the \<open>raise Exception(...)\<close> of the source; the others are raised by the library calls
  the source makes (\<open>open\<close>, \<open>Path.mkdir\<close>, attribute access on \<open>None\<close>) or come out of
  the external collaborators (\<open>PDFToText\<close>, \<open>http_get\<close>, \<open>zipfile\<close>, \<open>tarfile\<close>).
\<close>

datatype error =
    Exception string
  | IsADirectoryError
  | NotADirectoryError
  | FileExistsError
  | AttributeError
  | ExternalError string

subsection \<open>The file system\<close>

text \<open>
  A file system entry is a regular file with its text (what \<open>open(path).read()\<close> returns)
  or a directory with its entries in the order \<open>os.scandir\<close> lists them. A path is the
  list of its components below the root of the modelled tree.
\<close>

datatype node = File string | Dir "(string \<times> node) list"

type_synonym path = "string list"

fun lookup :: "node \<Rightarrow> path \<Rightarrow> node option" where
  "lookup n [] = Some n"
| "lookup (File c) (x # xs) = None"
| "lookup (Dir es) (x # xs) =
     (case map_of es x of None \<Rightarrow> None | Some n \<Rightarrow> lookup n xs)"

text \<open>
  \<open>PurePath.suffix\<close> of pathlib, on the final component \<open>name\<close>:
  \<^verbatim>\<open>
  i = name.rfind('.')
  if 0 < i < len(name) - 1: return name[i:]
  else: return ''
  \<close>
  \<open>after_dot\<close> is the number of characters behind the last dot, so \<open>i\<close> is
  \<open>length name - after_dot - 1\<close> when the name has a dot.
\<close>

definition suffix_name :: "string \<Rightarrow> string" where
  "suffix_name name =
     (let after_dot = length (takeWhile (\<lambda>c. c \<noteq> CHR ''.'') (rev name)) in
      if CHR ''.'' \<in> set name \<and> after_dot + 1 < length name \<and> 0 < after_dot
      then drop (length name - after_dot - 1) name
      else [])"

text \<open>The \<open>suffix\<close> property of a path is the suffix of its last component.\<close>

definition suffix_path :: "path \<Rightarrow> string" where
  "suffix_path p = (if p = [] then [] else suffix_name (last p))"

text \<open>
  \<open>Path(dir_path).glob("**/*" + ext)\<close>. pathlib visits the directory itself and then
  every directory below it, parents first (\<open>_iterate_directories\<close>); in each visited
  directory it yields the entries, files and directories alike, whose name matches
  \<open>"*" + ext\<close>. \<open>fnmatch\<close> gives a leading dot no special meaning, so a name matches when
  it ends with \<open>ext\<close>. Each path is paired with the entry it names: the file system does
  not change while the converter runs. When \<open>dir_path\<close> is not an existing directory the
  selector yields nothing.
\<close>

type_synonym entry = "path \<times> node"

definition matches :: "string \<Rightarrow> string \<Rightarrow> bool" where
  "matches ext name = suffix ext name"

fun iterate_directories :: "path \<Rightarrow> node \<Rightarrow> (path \<times> (string \<times> node) list) list" where
  "iterate_directories p (File c) = []"
| "iterate_directories p (Dir es) =
     (p, es) # concat (map (\<lambda>e. iterate_directories (p @ [fst e]) (snd e)) es)"

definition select_from :: "string \<Rightarrow> path \<times> (string \<times> node) list \<Rightarrow> entry list" where
  "select_from ext d =
     map (\<lambda>e. (fst d @ [fst e], snd e)) (filter (\<lambda>e. matches ext (fst e)) (snd d))"

definition glob :: "node \<Rightarrow> path \<Rightarrow> string \<Rightarrow> entry list" where
  "glob root dir_path ext =
     (case lookup root dir_path of
        None \<Rightarrow> []
      | Some n \<Rightarrow> concat (map (select_from ext) (iterate_directories dir_path n)))"

subsection \<open>Strings\<close>

text \<open>
  A text is a list of characters, each standing for one code point below 256.
  \<open>isspace\<close> holds of the characters \<open>str.strip()\<close> removes in that range: tab, line feed,
  vertical tab, form feed, carriage return, the four separators \<open>0x1C\<close> to \<open>0x1F\<close>,
  space, next line (\<open>0x85\<close>) and no-break space (\<open>0xA0\<close>).
\<close>

definition isspace :: "char \<Rightarrow> bool" where
  "isspace c \<longleftrightarrow>
     c \<in> set [CHR 0x09, CHR 0x0A, CHR 0x0B, CHR 0x0C, CHR 0x0D,
              CHR 0x1C, CHR 0x1D, CHR 0x1E, CHR 0x1F, CHR 0x20, CHR 0x85, CHR 0xA0]"

definition strip :: "string \<Rightarrow> string" where
  "strip s = rev (dropWhile isspace (rev (dropWhile isspace s)))"

text \<open>
  \<open>s.split(sep)\<close> scans \<open>s\<close> from the left and cuts at every occurrence of \<open>sep\<close> that
  does not overlap the one before; \<open>cur\<close> is the piece read so far. Python raises
  \<open>ValueError\<close> on an empty separator; the converter only ever passes \<open>"\n\n"\<close>, and
  \<open>split_from\<close> never cuts when the separator is empty.
\<close>

fun split_from :: "string \<Rightarrow> string \<Rightarrow> string \<Rightarrow> string list" where
  "split_from sep cur [] = [cur]"
| "split_from sep cur (x # xs) =
     (if sep \<noteq> [] \<and> prefix sep (x # xs)
      then cur # split_from sep [] (drop (length sep) (x # xs))
      else split_from sep (cur @ [x]) xs)"

definition str_split :: "string \<Rightarrow> string \<Rightarrow> string list" where
  "str_split s sep = split_from sep [] s"

subsection \<open>Documents and the PDF converter\<close>

text \<open>
  Modelled from the spec: the class \<open>Document\<close> of \<open>haystack.database.base\<close> is not among
  the sources; the converter only sets its \<open>text\<close> field.
\<close>

record Document =
  "text" :: string

text \<open>
  Modelled from the spec: the class \<open>PDFToText\<close> of
  \<open>haystack.indexing.file_converters.pdftotext\<close> is not among the sources. It is a black
  box: a converter object is its method \<open>extract_text\<close>, which returns the text of the file
  at a path or fails, and the constructor call \<open>PDFToText()\<close> returns a converter or fails.
  The constructor's outcome is a parameter of the model.
\<close>

type_synonym pdf_converter = "entry \<Rightarrow> error + string"

subsection \<open>\<open>convert_files_to_documents\<close>\<close>

text \<open>
  The first loop of the source (lines 25 to 32):
  \<^verbatim>\<open>
  file_paths = []
  for ext in ("**/*.txt", "**/*.pdf"):
      paths = [p for p in Path(dir_path).glob(ext)]
      file_paths.extend(paths)
      if ".pdf" in [p.suffix for p in paths]:
          pdf_converter = PDFToText()
      else:
          pdf_converter = None
  \<close>
  The loop state is the pair of \<open>file_paths\<close> and \<open>pdf_converter\<close>; each pass overwrites
  \<open>pdf_converter\<close>. The patterns are given by their extension.
\<close>

fun enumerate_files ::
  "(error + pdf_converter) \<Rightarrow> node \<Rightarrow> path \<Rightarrow> string list \<Rightarrow>
   entry list \<times> pdf_converter option \<Rightarrow> error + entry list \<times> pdf_converter option" where
  "enumerate_files PDFToText root dir_path [] st = Inr st"
| "enumerate_files PDFToText root dir_path (ext # exts) (file_paths, pdf_converter) =
     (let paths = glob root dir_path ext;
          file_paths' = file_paths @ paths
      in if ''.pdf'' \<in> set (map (\<lambda>p. suffix_path (fst p)) paths)
         then (case PDFToText of
                 Inl e \<Rightarrow> Inl e
               | Inr c \<Rightarrow> enumerate_files PDFToText root dir_path exts (file_paths', Some c))
         else enumerate_files PDFToText root dir_path exts (file_paths', None))"

text \<open>Lines 36 to 42: the text of one enumerated path, by its suffix.\<close>

definition read_text :: "pdf_converter option \<Rightarrow> entry \<Rightarrow> error + string" where
  "read_text pdf_converter p =
     (if suffix_path (fst p) = ''.txt'' then
        (case snd p of File c \<Rightarrow> Inr c | Dir es \<Rightarrow> Inl IsADirectoryError)
      else if suffix_path (fst p) = ''.pdf'' then
        (case pdf_converter of None \<Rightarrow> Inl AttributeError | Some c \<Rightarrow> c p)
      else Inl (Exception (''Indexing of '' @ suffix_path (fst p) @
                           '' files is not currently supported.'')))"

text \<open>Lines 44 and 45: \<open>clean_func\<close> is \<open>None\<close> or a function from text to text.\<close>

definition apply_clean :: "(string \<Rightarrow> string) option \<Rightarrow> string \<Rightarrow> string" where
  "apply_clean clean_func t = (case clean_func of None \<Rightarrow> t | Some f \<Rightarrow> f t)"

text \<open>Lines 48 to 51: the loop over the paragraphs, which skips the blank ones.\<close>

fun append_paragraphs :: "string list \<Rightarrow> Document list \<Rightarrow> Document list" where
  "append_paragraphs [] documents = documents"
| "append_paragraphs (para # paras) documents =
     (if strip para = [] then append_paragraphs paras documents
      else append_paragraphs paras (documents @ [\<lparr>text = para\<rparr>]))"

text \<open>Lines 34 to 53: the loop over \<open>file_paths\<close>, with \<open>documents\<close> as its state.\<close>

fun convert_paths ::
  "pdf_converter option \<Rightarrow> (string \<Rightarrow> string) option \<Rightarrow> bool \<Rightarrow> entry list \<Rightarrow>
   Document list \<Rightarrow> error + Document list" where
  "convert_paths pdf_converter clean_func split_paragraphs [] documents = Inr documents"
| "convert_paths pdf_converter clean_func split_paragraphs (p # file_paths) documents =
     (case read_text pdf_converter p of
        Inl e \<Rightarrow> Inl e
      | Inr raw \<Rightarrow>
          (let t = apply_clean clean_func raw in
           if split_paragraphs
           then convert_paths pdf_converter clean_func split_paragraphs file_paths
                  (append_paragraphs (str_split t ''\<newline>\<newline>'') documents)
           else convert_paths pdf_converter clean_func split_paragraphs file_paths
                  (documents @ [\<lparr>text = t\<rparr>])))"

definition convert_files_to_documents ::
  "(error + pdf_converter) \<Rightarrow> node \<Rightarrow> path \<Rightarrow> (string \<Rightarrow> string) option \<Rightarrow> bool \<Rightarrow>
   error + Document list" where
  "convert_files_to_documents PDFToText root dir_path clean_func split_paragraphs =
     (case enumerate_files PDFToText root dir_path [''.txt'', ''.pdf''] ([], None) of
        Inl e \<Rightarrow> Inl e
      | Inr (file_paths, pdf_converter) \<Rightarrow>
          convert_paths pdf_converter clean_func split_paragraphs file_paths [])"

subsection \<open>\<open>fetch_archive_from_http\<close>\<close>

text \<open>
  The fetcher changes the world: it creates directories, writes and deletes a temporary
  file, calls the network and the archive libraries, and logs. The world is the file
  system, the temporary file of \<open>tempfile.NamedTemporaryFile\<close> (\<open>None\<close> when there is none,
  otherwise its content) and the trace of every effect so far, oldest first.
\<close>

datatype event =
    Mkdir path
  | LogFoundData path
  | LogFetching string path
  | TempCreate
  | HttpGet string
  | ExtractZip path
  | ExtractTar path
  | TempDelete

record world =
  fs :: node
  temp_file :: "string option"
  trace :: "event list"

text \<open>
  The collaborators are parameters. \<open>http_get\<close> (of \<open>farm.data_handler.utils\<close>) returns the
  bytes it wrote to the temporary file or raises. \<open>extractall\<close> of \<open>zipfile\<close> and of
  \<open>tarfile\<close> takes the archive's bytes, the output directory and the file system, and
  returns the file system it leaves behind and the error it raised, if any.
\<close>

type_synonym proxies = "(string \<times> string) list option"

record externals =
  http_get :: "string \<Rightarrow> proxies \<Rightarrow> error + string"
  zip_extractall :: "string \<Rightarrow> path \<Rightarrow> node \<Rightarrow> node \<times> error option"
  tar_extractall :: "string \<Rightarrow> path \<Rightarrow> node \<Rightarrow> node \<times> error option"

definition emit :: "event \<Rightarrow> world \<Rightarrow> world" where
  "emit ev w = w\<lparr>trace := trace w @ [ev]\<rparr>"

text \<open>\<open>path.exists()\<close> and \<open>path.mkdir(parents=True)\<close>.\<close>

definition exists_path :: "node \<Rightarrow> path \<Rightarrow> bool" where
  "exists_path root p \<longleftrightarrow> lookup root p \<noteq> None"

fun new_dirs :: "path \<Rightarrow> node" where
  "new_dirs [] = Dir []"
| "new_dirs (x # xs) = Dir [(x, new_dirs xs)]"

fun replace_entry :: "string \<Rightarrow> node \<Rightarrow> (string \<times> node) list \<Rightarrow> (string \<times> node) list" where
  "replace_entry x n [] = [(x, n)]"
| "replace_entry x n (e # es) = (if fst e = x then (x, n) # es else e # replace_entry x n es)"

fun mkdir_parents :: "node \<Rightarrow> path \<Rightarrow> error + node" where
  "mkdir_parents n [] = Inl FileExistsError"
| "mkdir_parents (File c) (x # xs) = Inl NotADirectoryError"
| "mkdir_parents (Dir es) (x # xs) =
     (case map_of es x of
        None \<Rightarrow> Inr (Dir (es @ [(x, new_dirs xs)]))
      | Some n \<Rightarrow>
          (case mkdir_parents n xs of
             Inl e \<Rightarrow> Inl e
           | Inr n' \<Rightarrow> Inr (Dir (replace_entry x n' es))))"

text \<open>\<open>url[-n:]\<close>: the last \<open>n\<close> characters, or all of \<open>url\<close> when it is shorter.\<close>

definition url_tail :: "nat \<Rightarrow> string \<Rightarrow> string" where
  "url_tail n url = drop (length url - n) url"

text \<open>
  Lines 86 to 95, the body of the \<open>with\<close> block. It returns the world it leaves and the
  exception that ended it, if any. \<open>flush\<close> and \<open>seek(0)\<close> do not change the content.
\<close>

definition download_and_extract ::
  "externals \<Rightarrow> string \<Rightarrow> path \<Rightarrow> proxies \<Rightarrow> world \<Rightarrow> world \<times> error option" where
  "download_and_extract X url output_dir proxies w =
     (case http_get X url proxies of
        Inl e \<Rightarrow> (emit (HttpGet url) w, Some e)
      | Inr content \<Rightarrow>
          (let w1 = emit (HttpGet url) (w\<lparr>temp_file := Some content\<rparr>) in
           if url_tail 4 url = ''.zip'' then
             (case zip_extractall X content output_dir (fs w1) of
                (fs', r) \<Rightarrow> (emit (ExtractZip output_dir) (w1\<lparr>fs := fs'\<rparr>), r))
           else if url_tail 7 url = ''.tar.gz'' then
             (case tar_extractall X content output_dir (fs w1) of
                (fs', r) \<Rightarrow> (emit (ExtractTar output_dir) (w1\<lparr>fs := fs'\<rparr>), r))
           else (w1, None)))"

text \<open>
  \<open>with tempfile.NamedTemporaryFile() as temp_file:\<close> creates the file, runs the body and
  deletes the file when the block is left, by its end or by an exception.
\<close>

definition with_temp_file ::
  "(world \<Rightarrow> world \<times> error option) \<Rightarrow> world \<Rightarrow> world \<times> error option" where
  "with_temp_file body w =
     (case body (emit TempCreate (w\<lparr>temp_file := Some []\<rparr>)) of
        (w', r) \<Rightarrow> (emit TempDelete (w'\<lparr>temp_file := None\<rparr>), r))"

text \<open>
  Line 75: \<open>Path(path).rglob("*")\<close> is \<open>glob("**/*")\<close>, the pattern with the empty
  extension, which every name matches.
\<close>

definition fetch_archive_from_http ::
  "externals \<Rightarrow> string \<Rightarrow> path \<Rightarrow> proxies \<Rightarrow> world \<Rightarrow> world \<times> (error + bool)" where
  "fetch_archive_from_http X url output_dir proxies w =
     (case (if \<not> exists_path (fs w) output_dir
            then (case mkdir_parents (fs w) output_dir of
                    Inl e \<Rightarrow> Inl e
                  | Inr root \<Rightarrow> Inr (emit (Mkdir output_dir) (w\<lparr>fs := root\<rparr>)))
            else Inr w) of
        Inl e \<Rightarrow> (w, Inl e)
      | Inr w1 \<Rightarrow>
          (let is_not_empty = (length (glob (fs w1) output_dir []) > 0) in
           if is_not_empty then (emit (LogFoundData output_dir) w1, Inr False)
           else
             (case with_temp_file (download_and_extract X url output_dir proxies)
                     (emit (LogFetching url output_dir) w1) of
                (w2, Some e) \<Rightarrow> (w2, Inl e)
              | (w2, None) \<Rightarrow> (w2, Inr True))))"

subsection \<open>Notions the properties are stated with\<close>

text \<open>
  \<open>str.upper\<close> on the letters \<open>a\<close> to \<open>z\<close>, the cleaning function of the upper-casing
  property.
\<close>

definition upper_char :: "char \<Rightarrow> char" where
  "upper_char c =
     (if 97 \<le> (of_char c :: nat) \<and> (of_char c :: nat) \<le> 122
      then char_of (of_char c - 32 :: nat) else c)"

definition upper :: "string \<Rightarrow> string" where
  "upper s = map upper_char s"

text \<open>
  The regular files below a directory, each with its path and text, in the order of
  pathlib's walk: the files of a directory come before those of its subdirectories.
\<close>

fun files_of :: "path \<Rightarrow> node \<Rightarrow> (path \<times> string) list" where
  "files_of p (File c) = []"
| "files_of p (Dir es) =
     concat (map (\<lambda>e. case snd e of File c \<Rightarrow> [(p @ [fst e], c)] | Dir es' \<Rightarrow> []) es) @
     concat (map (\<lambda>e. files_of (p @ [fst e]) (snd e)) es)"

text \<open>
  A tree on which the enumeration yields regular \<open>.txt\<close> files and nothing else. It
  asks two things: every regular file at any depth has the suffix \<open>.txt\<close> (which a file
  named \<open>.txt\<close> and nothing more has not), and no subdirectory has a name that one of
  the two patterns matches. The second is more than "the directory contains only
  \<open>.txt\<close> files": a subdirectory named \<open>old.txt\<close> is not a file, yet the pattern
  yields it.
\<close>

fun plain_txt_tree :: "node \<Rightarrow> bool" where
  "plain_txt_tree (File c) = True"
| "plain_txt_tree (Dir es) =
     list_all (\<lambda>e. case snd e of
                      File c \<Rightarrow> suffix_name (fst e) = ''.txt''
                    | Dir es' \<Rightarrow> \<not> matches ''.txt'' (fst e) \<and> \<not> matches ''.pdf'' (fst e) \<and>
                               plain_txt_tree (snd e)) es"

text \<open>
  The records one file contributes, from its raw text: its non-blank paragraphs in
  their order, or the whole cleaned text.
\<close>

definition file_records :: "(string \<Rightarrow> string) option \<Rightarrow> bool \<Rightarrow> string \<Rightarrow> Document list" where
  "file_records clean_func split_paragraphs raw =
     (if split_paragraphs
      then map (\<lambda>para. \<lparr>text = para\<rparr>)
             (filter (\<lambda>para. strip para \<noteq> [])
                (str_split (apply_clean clean_func raw) ''\<newline>\<newline>''))
      else [\<lparr>text = apply_clean clean_func raw\<rparr>])"

text \<open>
  Sample collaborators for the worked examples: the download returns two bytes, the zip
  library writes one file below \<open>data\<close>, and the tar library fails on the archive.
\<close>

definition sample_externals :: externals where
  "sample_externals =
     \<lparr>http_get = (\<lambda>url proxies. Inr ''PK''),
      zip_extractall =
        (\<lambda>content output_dir root. (Dir [(''data'', Dir [(''a.txt'', File ''A'')])], None)),
      tar_extractall =
        (\<lambda>content output_dir root. (root, Some (ExternalError ''ReadError'')))\<rparr>"

section \<open>Auxiliary facts\<close>

subsection \<open>Suffixes, patterns and enumeration\<close>


lemma suffix_name_txt: "suffix_name (pre @ ''.txt'') = (if pre = [] then [] else ''.txt'')"
  by (simp add: suffix_name_def)

lemma suffix_name_pdf: "suffix_name (pre @ ''.pdf'') = (if pre = [] then [] else ''.pdf'')"
  by (simp add: suffix_name_def)

lemma matches_txt: "matches ''.txt'' name \<Longrightarrow> suffix_name name = ''.txt'' \<or> suffix_name name = []"
  unfolding matches_def suffix_def by (auto simp: suffix_name_txt)

lemma matches_pdf: "matches ''.pdf'' name \<Longrightarrow> suffix_name name = ''.pdf'' \<or> suffix_name name = []"
  unfolding matches_def suffix_def by (auto simp: suffix_name_pdf)

lemma suffix_name_matches: "suffix_name name = ext \<Longrightarrow> ext \<noteq> [] \<Longrightarrow> matches ext name"
  unfolding matches_def suffix_name_def Let_def
  by (auto split: if_splits simp: suffix_drop)

lemma append_paragraphs_eq:
  "append_paragraphs paras documents =
     documents @ map (\<lambda>p. \<lparr>text = p\<rparr>) (filter (\<lambda>p. strip p \<noteq> []) paras)"
  by (induction paras arbitrary: documents) auto

lemma select_from_suffix:
  "e \<in> set (select_from ext d) \<Longrightarrow> matches ext (last (fst e)) \<and> fst e \<noteq> []"
  by (auto simp: select_from_def)

lemma glob_matches:
  "e \<in> set (glob root dir_path ext) \<Longrightarrow> matches ext (last (fst e)) \<and> fst e \<noteq> []"
  by (auto simp: glob_def split: option.splits dest: select_from_suffix)

lemma glob_txt_suffix:
  "e \<in> set (glob root dir_path ''.txt'') \<Longrightarrow> suffix_path (fst e) = ''.txt'' \<or> suffix_path (fst e) = []"
  using glob_matches[of e root dir_path "''.txt''"] matches_txt[of "last (fst e)"]
  by (auto simp: suffix_path_def)

lemma glob_pdf_suffix:
  "e \<in> set (glob root dir_path ''.pdf'') \<Longrightarrow> suffix_path (fst e) = ''.pdf'' \<or> suffix_path (fst e) = []"
  using glob_matches[of e root dir_path "''.pdf''"] matches_pdf[of "last (fst e)"]
  by (auto simp: suffix_path_def)

lemma enumerate_files_eq:
  "enumerate_files PDFToText root dir_path [''.txt'', ''.pdf''] ([], None) =
     (if ''.pdf'' \<in> set (map (\<lambda>p. suffix_path (fst p)) (glob root dir_path ''.pdf''))
      then (case PDFToText of
              Inl e \<Rightarrow> Inl e
            | Inr c \<Rightarrow> Inr (glob root dir_path ''.txt'' @ glob root dir_path ''.pdf'', Some c))
      else Inr (glob root dir_path ''.txt'' @ glob root dir_path ''.pdf'', None))"
proof -
  have "''.pdf'' \<notin> set (map (\<lambda>p. suffix_path (fst p)) (glob root dir_path ''.txt''))"
    using glob_txt_suffix[of _ root dir_path] by fastforce
  then show ?thesis
    by (simp add: Let_def split: sum.splits)
qed

lemma enumerate_files_paths:
  "enumerate_files PDFToText root dir_path [''.txt'', ''.pdf''] ([], None) = Inr (fps, conv) \<Longrightarrow>
   fps = glob root dir_path ''.txt'' @ glob root dir_path ''.pdf''"
  unfolding enumerate_files_eq by (auto split: if_splits sum.splits)

lemma convert_paths_acc:
  "convert_paths pc cf sp ps docs =
     (case convert_paths pc cf sp ps [] of Inl e \<Rightarrow> Inl e | Inr r \<Rightarrow> Inr (docs @ r))"
proof (induction ps arbitrary: docs)
  case Nil
  show ?case by simp
next
  case (Cons p ps)
  show ?case
  proof (cases "read_text pc p")
    case (Inl e)
    then show ?thesis by simp
  next
    case (Inr raw)
    show ?thesis
    proof (cases sp)
      case True
      then show ?thesis
        using Inr Cons.IH[of "append_paragraphs (str_split (apply_clean cf raw) ''\<newline>\<newline>'') docs"]
              Cons.IH[of "append_paragraphs (str_split (apply_clean cf raw) ''\<newline>\<newline>'') []"]
        by (simp add: append_paragraphs_eq split: sum.splits)
    next
      case False
      then show ?thesis
        using Inr Cons.IH[of "docs @ [\<lparr>text = apply_clean cf raw\<rparr>]"]
              Cons.IH[of "[\<lparr>text = apply_clean cf raw\<rparr>]"]
        by (simp split: sum.splits)
    qed
  qed
qed

lemma convert_paths_append:
  "convert_paths pc cf sp (ps @ qs) docs =
     (case convert_paths pc cf sp ps docs of
        Inl e \<Rightarrow> Inl e
      | Inr r \<Rightarrow> convert_paths pc cf sp qs r)"
  by (induction ps arbitrary: docs) (auto simp: Let_def split: sum.splits)

lemma convert_paths_member:
  "convert_paths pc cf sp ps docs = Inr r \<Longrightarrow> d \<in> set r \<Longrightarrow>
   d \<in> set docs \<or>
   (\<exists>e raw. e \<in> set ps \<and> read_text pc e = Inr raw \<and>
      (if sp then text d \<in> set (str_split (apply_clean cf raw) ''\<newline>\<newline>'') \<and> strip (text d) \<noteq> []
       else text d = apply_clean cf raw))"
proof (induction ps arbitrary: docs)
  case Nil
  then show ?case by simp
next
  case (Cons p ps)
  from Cons.prems(1) obtain raw where raw: "read_text pc p = Inr raw"
    by (auto split: sum.splits)
  let ?t = "apply_clean cf raw"
  let ?docs' = "if sp then append_paragraphs (str_split ?t ''\<newline>\<newline>'') docs
                else docs @ [\<lparr>text = ?t\<rparr>]"
  from Cons.prems(1) raw have "convert_paths pc cf sp ps ?docs' = Inr r"
    by (auto simp: Let_def split: if_splits)
  from Cons.IH[OF this Cons.prems(2)]
  consider (old) "d \<in> set ?docs'"
    | (rest) e raw' where "e \<in> set ps" "read_text pc e = Inr raw'"
        "if sp then text d \<in> set (str_split (apply_clean cf raw') ''\<newline>\<newline>'') \<and> strip (text d) \<noteq> []
         else text d = apply_clean cf raw'"
    by blast
  then show ?case
  proof cases
    case old
    then have "d \<in> set docs \<or>
        (if sp then text d \<in> set (str_split ?t ''\<newline>\<newline>'') \<and> strip (text d) \<noteq> []
         else text d = ?t)"
      by (auto simp: append_paragraphs_eq split: if_splits)
    with raw show ?thesis
      by (meson list.set_intros(1))
  next
    case rest
    then show ?thesis
      by (meson list.set_intros(2))
  qed
qed

subsection \<open>Paragraphs, upper-casing and the records of a file\<close>

lemma single_file_glob_txt:
  "suffix_name name = ''.txt'' \<Longrightarrow> glob (Dir [(name, File c)]) [] ''.txt'' = [([name], File c)]"
  using suffix_name_matches[of name "''.txt''"]
  by (simp add: glob_def select_from_def)

lemma single_file_glob_pdf:
  "suffix_name name = ''.txt'' \<Longrightarrow> glob (Dir [(name, File c)]) [] ''.pdf'' = []"
  using matches_pdf[of name]
  by (auto simp: glob_def select_from_def)

lemma split_from_chars:
  "p \<in> set (split_from sep cur s) \<Longrightarrow> set p \<subseteq> set cur \<union> set s"
proof (induction sep cur s rule: split_from.induct)
  case (1 sep cur)
  then show ?case by simp
next
  case (2 sep cur x xs)
  show ?case
  proof (cases "sep \<noteq> [] \<and> prefix sep (x # xs)")
    case True
    with "2.prems" have "p = cur \<or> p \<in> set (split_from sep [] (drop (length sep) (x # xs)))"
      by simp
    then show ?thesis
    proof
      assume "p = cur"
      then show ?thesis by auto
    next
      assume "p \<in> set (split_from sep [] (drop (length sep) (x # xs)))"
      from "2.IH"(1)[OF True this] have "set p \<subseteq> set (drop (length sep) (x # xs))"
        by simp
      also have "\<dots> \<subseteq> set (x # xs)"
        by (rule set_drop_subset)
      finally show ?thesis by auto
    qed
  next
    case False
    with "2.prems" have "p \<in> set (split_from sep (cur @ [x]) xs)"
      by auto
    from "2.IH"(2)[OF False this] show ?thesis by auto
  qed
qed

lemma str_split_chars: "p \<in> set (str_split s sep) \<Longrightarrow> set p \<subseteq> set s"
  using split_from_chars[of p sep "[]" s] by (simp add: str_split_def)

lemma upper_char_idem: "upper_char (upper_char c) = upper_char c"
proof (cases "97 \<le> (of_char c :: nat) \<and> (of_char c :: nat) \<le> 122")
  case True
  define n where "n = (of_char c :: nat)"
  from True have u: "upper_char c = char_of (n - 32)"
    by (simp add: upper_char_def n_def)
  from True have "n - 32 < 256" "\<not> 97 \<le> n - 32"
    unfolding n_def by arith+
  then have "upper_char (char_of (n - 32)) = char_of (n - 32)"
    by (simp add: upper_char_def)
  with u show ?thesis by simp
next
  case False
  then have "upper_char c = c"
    unfolding upper_char_def by (simp only: if_False)
  then show ?thesis by simp
qed

lemma upper_fixed: "set p \<subseteq> set (upper s) \<Longrightarrow> upper p = p"
  unfolding upper_def by (rule map_idI) (auto simp: upper_char_idem)

lemma convert_paths_records:
  "convert_paths pc cf sp ps docs = Inr r \<Longrightarrow>
   \<exists>raws. map (read_text pc) ps = map Inr raws \<and>
          r = docs @ concat (map (file_records cf sp) raws)"
proof (induction ps arbitrary: docs)
  case Nil
  then show ?case by simp
next
  case (Cons p ps)
  from Cons.prems obtain raw where raw: "read_text pc p = Inr raw"
    by (auto split: sum.splits)
  with Cons.prems have "convert_paths pc cf sp ps (docs @ file_records cf sp raw) = Inr r"
    by (auto simp: Let_def file_records_def append_paragraphs_eq split: if_splits)
  from Cons.IH[OF this] obtain raws where
    "map (read_text pc) ps = map Inr raws"
    "r = (docs @ file_records cf sp raw) @ concat (map (file_records cf sp) raws)"
    by blast
  with raw have "map (read_text pc) (p # ps) = map Inr (raw # raws) \<and>
      r = docs @ concat (map (file_records cf sp) (raw # raws))"
    by simp
  then show ?case by blast
qed

lemma convert_paths_from_texts:
  "map (read_text pc) ps = map Inr raws \<Longrightarrow>
   convert_paths pc cf sp ps docs = Inr (docs @ concat (map (file_records cf sp) raws))"
proof (induction ps arbitrary: docs raws)
  case Nil
  then show ?case by simp
next
  case (Cons p ps)
  from Cons.prems obtain raw rest where
    raws: "raws = raw # rest" and raw: "read_text pc p = Inr raw"
    and rest: "map (read_text pc) ps = map Inr rest"
    by (cases raws) auto
  from Cons.IH[OF rest, of "docs @ file_records cf sp raw"] raw raws
  show ?case
    by (cases sp) (simp_all add: Let_def file_records_def append_paragraphs_eq)
qed

lemma read_text_suffix:
  "read_text pc e = Inr raw \<Longrightarrow> suffix_path (fst e) = ''.txt'' \<or> suffix_path (fst e) = ''.pdf''"
  by (auto simp: read_text_def split: if_splits)

lemma texts_suffix:
  assumes "map (read_text pc) ps = map Inr raws" and "e \<in> set ps"
  shows "suffix_path (fst e) = ''.txt'' \<or> suffix_path (fst e) = ''.pdf''"
proof -
  from assms(2) have "read_text pc e \<in> set (map (read_text pc) ps)"
    by simp
  with assms(1) obtain raw where "read_text pc e = Inr raw"
    by auto
  then show ?thesis by (rule read_text_suffix)
qed

subsection \<open>The output directory and the URL\<close>

lemma url_tail_suffix: "length s = n \<Longrightarrow> url_tail n url = s \<longleftrightarrow> suffix s url"
proof
  assume n: "length s = n" and "url_tail n url = s"
  then have "s = drop (length url - n) url"
    by (simp add: url_tail_def)
  then show "suffix s url"
    by (metis suffix_drop)
next
  assume n: "length s = n" and "suffix s url"
  then obtain pre where "url = pre @ s"
    by (auto simp: suffix_def)
  with n show "url_tail n url = s"
    by (simp add: url_tail_def)
qed

lemma empty_dir_glob: "lookup root p = Some (Dir []) \<Longrightarrow> glob root p ext = []"
  by (simp add: glob_def select_from_def)





lemma download_and_extract_plain:
  assumes "\<not> suffix ''.zip'' url" and "\<not> suffix ''.tar.gz'' url"
  shows "download_and_extract X url output_dir proxies w =
     (case http_get X url proxies of
        Inl e \<Rightarrow> (emit (HttpGet url) w, Some e)
      | Inr content \<Rightarrow> (emit (HttpGet url) (w\<lparr>temp_file := Some content\<rparr>), None))"
proof -
  from assms have "url_tail 4 url \<noteq> ''.zip''" "url_tail 7 url \<noteq> ''.tar.gz''"
    by (simp_all add: url_tail_suffix)
  then show ?thesis
    by (simp add: download_and_extract_def Let_def split: sum.splits)
qed

subsection \<open>Directories that hold only \<open>.txt\<close> files\<close>

lemma txt_not_pdf: "suffix_name name = ''.txt'' \<Longrightarrow> \<not> matches ''.pdf'' name"
  using matches_pdf[of name] by auto

lemma select_txt_only:
  assumes "list_all (\<lambda>e. case snd e of
                      File c \<Rightarrow> suffix_name (fst e) = ''.txt''
                    | Dir es' \<Rightarrow> \<not> matches ''.txt'' (fst e) \<and> \<not> matches ''.pdf'' (fst e) \<and>
                               plain_txt_tree (snd e)) es"
  shows "select_from ''.txt'' (p, es) =
           map (\<lambda>f. (fst f, File (snd f)))
             (concat (map (\<lambda>e. case snd e of File c \<Rightarrow> [(p @ [fst e], c)] | Dir es' \<Rightarrow> []) es))"
    and "select_from ''.pdf'' (p, es) = []"
  using assms
  by (induction es)
    (auto simp: select_from_def suffix_name_matches txt_not_pdf split: node.splits)

lemma concat_concat_map:
  "concat (concat (map (\<lambda>x. map f (g x)) es)) = concat (map (\<lambda>x. concat (map f (g x))) es)"
  by (induction es) auto

lemma plain_txt_tree_sub:
  assumes "plain_txt_tree (Dir es)" and "e \<in> set es"
  shows "plain_txt_tree (snd e)"
proof (cases "snd e")
  case (File c)
  then show ?thesis by simp
next
  case (Dir es')
  from assms have "case snd e of
                      File c \<Rightarrow> suffix_name (fst e) = ''.txt''
                    | Dir es' \<Rightarrow> \<not> matches ''.txt'' (fst e) \<and> \<not> matches ''.pdf'' (fst e) \<and>
                               plain_txt_tree (snd e)"
    by (simp add: list_all_iff)
  then show ?thesis
    unfolding Dir by (simp only: node.case)
qed

lemma plain_txt_tree_glob:
  "plain_txt_tree n \<Longrightarrow>
   concat (map (select_from ''.txt'') (iterate_directories p n)) =
     map (\<lambda>f. (fst f, File (snd f))) (files_of p n) \<and>
   concat (map (select_from ''.pdf'') (iterate_directories p n)) = []"
proof (induction p n rule: iterate_directories.induct)
  case (1 p c)
  show ?case by simp
next
  case (2 p es)
  from "2.prems" have all: "list_all (\<lambda>e. case snd e of
                      File c \<Rightarrow> suffix_name (fst e) = ''.txt''
                    | Dir es' \<Rightarrow> \<not> matches ''.txt'' (fst e) \<and> \<not> matches ''.pdf'' (fst e) \<and>
                               plain_txt_tree (snd e)) es"
    by simp
  note sub = plain_txt_tree_sub[OF "2.prems"]
  have below_txt: "concat (map (\<lambda>e. concat (map (select_from ''.txt'') (iterate_directories (p @ [fst e]) (snd e)))) es) =
      concat (map (\<lambda>e. map (\<lambda>f. (fst f, File (snd f))) (files_of (p @ [fst e]) (snd e))) es)"
    using "2.IH" sub by (intro arg_cong[where f = concat] map_cong) auto
  have below_pdf: "concat (map (\<lambda>e. concat (map (select_from ''.pdf'') (iterate_directories (p @ [fst e]) (snd e)))) es) = []"
    using "2.IH" sub by simp
  show ?case
    using below_txt below_pdf select_txt_only[OF all, of p]
    by (simp add: map_concat comp_def concat_concat_map)
qed

lemma files_of_suffix:
  "plain_txt_tree n \<Longrightarrow> f \<in> set (files_of p n) \<Longrightarrow> suffix_path (fst f) = ''.txt''"
proof (induction p n rule: files_of.induct)
  case (1 p c)
  then show ?case by simp
next
  case (2 p es)
  from "2.prems"(1) have all: "list_all (\<lambda>e. case snd e of
                      File c \<Rightarrow> suffix_name (fst e) = ''.txt''
                    | Dir es' \<Rightarrow> \<not> matches ''.txt'' (fst e) \<and> \<not> matches ''.pdf'' (fst e) \<and>
                               plain_txt_tree (snd e)) es"
    by simp
  note sub = plain_txt_tree_sub[OF "2.prems"(1)]
  from "2.prems"(2) consider
    (here) e c where "e \<in> set es" "snd e = File c" "f = (p @ [fst e], c)"
    | (below) e where "e \<in> set es" "f \<in> set (files_of (p @ [fst e]) (snd e))"
    by (auto split: node.splits)
  then show ?case
  proof cases
    case here
    with all have "suffix_name (fst e) = ''.txt''"
      by (auto simp: list_all_iff)
    with here show ?thesis
      by (simp add: suffix_path_def)
  next
    case below
    from "2.IH"[OF below(1) sub[OF below(1)] below(2)] show ?thesis .
  qed
qed

section \<open>Properties of \<open>convert_files_to_documents\<close>\<close>

text \<open>
  Claim C1, as stated, fails in the mode without paragraph splitting: an empty \<open>.txt\<close>
  file gives one record whose text is empty.
\<close>

theorem empty_file_unsplit_record:
  "convert_files_to_documents (Inl (ExternalError ''pdftotext is not installed''))
     (Dir [(''a.txt'', File [])]) [] None False = Inr [\<lparr>text = []\<rparr>]"
  by (simp add: convert_files_to_documents_def glob_def select_from_def matches_def suffix_def
      suffix_path_def suffix_name_def read_text_def apply_clean_def)

text \<open>
  Claim C1, amended. For every directory, cleaning function and flag, every record of a
  run that returns comes from the text of an enumerated file after cleaning. With
  paragraph splitting the record is one of the paragraphs of the cleaned text and has a
  character that is not white space, so it is not empty. Without paragraph splitting the
  record is the whole cleaned text, empty or not.
\<close>

theorem record_text_origin:
  assumes "convert_files_to_documents PDFToText root dir_path clean_func split_paragraphs = Inr documents"
    and "d \<in> set documents"
  shows "\<exists>file_paths pdf_converter p raw.
           enumerate_files PDFToText root dir_path [''.txt'', ''.pdf''] ([], None) =
             Inr (file_paths, pdf_converter) \<and>
           p \<in> set file_paths \<and> read_text pdf_converter p = Inr raw \<and>
           (if split_paragraphs
            then text d \<in> set (str_split (apply_clean clean_func raw) ''\<newline>\<newline>'') \<and>
                 strip (text d) \<noteq> [] \<and> text d \<noteq> []
            else text d = apply_clean clean_func raw)"
proof -
  from assms(1) obtain file_paths pdf_converter where
    en: "enumerate_files PDFToText root dir_path [''.txt'', ''.pdf''] ([], None) =
           Inr (file_paths, pdf_converter)"
    and cv: "convert_paths pdf_converter clean_func split_paragraphs file_paths [] = Inr documents"
    by (auto simp: convert_files_to_documents_def split: sum.splits)
  from convert_paths_member[OF cv assms(2)] obtain p raw where
    p: "p \<in> set file_paths" "read_text pdf_converter p = Inr raw"
    and t: "if split_paragraphs
            then text d \<in> set (str_split (apply_clean clean_func raw) ''\<newline>\<newline>'') \<and>
                 strip (text d) \<noteq> []
            else text d = apply_clean clean_func raw"
    by auto
  have "strip (text d) \<noteq> [] \<Longrightarrow> text d \<noteq> []"
    by (auto simp: strip_def)
  with t have "if split_paragraphs
            then text d \<in> set (str_split (apply_clean clean_func raw) ''\<newline>\<newline>'') \<and>
                 strip (text d) \<noteq> [] \<and> text d \<noteq> []
            else text d = apply_clean clean_func raw"
    by (simp split: if_splits)
  with en p show ?thesis
    by blast
qed

theorem record_text_origin_witness:
  "convert_files_to_documents (Inl (ExternalError ''pdftotext is not installed''))
     (Dir [(''a.txt'', File ''x\<newline>\<newline> \<newline>\<newline>y'')]) [] (Some upper) True =
     Inr [\<lparr>text = ''X''\<rparr>, \<lparr>text = ''Y''\<rparr>] \<and>
   \<lparr>text = ''Y''\<rparr> \<in> set [\<lparr>text = ''X''\<rparr>, \<lparr>text = ''Y''\<rparr>] \<and>
   (\<exists>file_paths pdf_converter p raw.
      enumerate_files (Inl (ExternalError ''pdftotext is not installed''))
        (Dir [(''a.txt'', File ''x\<newline>\<newline> \<newline>\<newline>y'')]) [] [''.txt'', ''.pdf''] ([], None) =
        Inr (file_paths, pdf_converter) \<and>
      p \<in> set file_paths \<and> read_text pdf_converter p = Inr raw \<and>
      (if True
       then text \<lparr>text = ''Y''\<rparr> \<in> set (str_split (apply_clean (Some upper) raw) ''\<newline>\<newline>'') \<and>
            strip (text \<lparr>text = ''Y''\<rparr>) \<noteq> [] \<and> text \<lparr>text = ''Y''\<rparr> \<noteq> []
       else text \<lparr>text = ''Y''\<rparr> = apply_clean (Some upper) raw))"
proof -
  have run: "convert_files_to_documents (Inl (ExternalError ''pdftotext is not installed''))
     (Dir [(''a.txt'', File ''x\<newline>\<newline> \<newline>\<newline>y'')]) [] (Some upper) True =
     Inr [\<lparr>text = ''X''\<rparr>, \<lparr>text = ''Y''\<rparr>]"
    by code_simp
  have mem: "\<lparr>text = ''Y''\<rparr> \<in> set [\<lparr>text = ''X''\<rparr>, \<lparr>text = ''Y''\<rparr>]"
    by simp
  from run mem record_text_origin[OF run mem] show ?thesis
    by (intro conjI)
qed

text \<open>
  Claim C5. A \<open>.txt\<close> file whose cleaned content is \<open>"a\n\nb\n\n  \n\nc"\<close>, converted with
  paragraph splitting, is cut at every pair of newline characters; the paragraph of two
  spaces is dropped and the records are \<open>a\<close>, \<open>b\<close>, \<open>c\<close>, in this order.
\<close>

theorem paragraphs_a_b_c:
  assumes "suffix_name name = ''.txt''"
    and "apply_clean clean_func raw = ''a\<newline>\<newline>b\<newline>\<newline>  \<newline>\<newline>c''"
  shows "convert_files_to_documents PDFToText (Dir [(name, File raw)]) [] clean_func True =
           Inr [\<lparr>text = ''a''\<rparr>, \<lparr>text = ''b''\<rparr>, \<lparr>text = ''c''\<rparr>]"
proof -
  have en: "enumerate_files PDFToText (Dir [(name, File raw)]) [] [''.txt'', ''.pdf''] ([], None) =
          Inr ([([name], File raw)], None)"
    unfolding enumerate_files_eq
    by (simp add: single_file_glob_txt[OF assms(1)] single_file_glob_pdf[OF assms(1)])
  have rd: "read_text None ([name], File raw) = Inr raw"
    using assms(1) by (simp add: read_text_def suffix_path_def)
  have sp: "str_split ''a\<newline>\<newline>b\<newline>\<newline>  \<newline>\<newline>c'' ''\<newline>\<newline>'' = [''a'', ''b'', ''  '', ''c'']"
    by (simp add: str_split_def)
  have st: "strip ''a'' \<noteq> []" "strip ''b'' \<noteq> []" "strip ''  '' = []" "strip ''c'' \<noteq> []"
    by (simp_all add: strip_def isspace_def)
  show ?thesis
    unfolding convert_files_to_documents_def en
    by (simp add: rd assms(2) sp st)
qed

theorem paragraphs_a_b_c_witness:
  "suffix_name ''notes.txt'' = ''.txt'' \<and>
   apply_clean None ''a\<newline>\<newline>b\<newline>\<newline>  \<newline>\<newline>c'' = ''a\<newline>\<newline>b\<newline>\<newline>  \<newline>\<newline>c'' \<and>
   convert_files_to_documents (Inl (ExternalError ''pdftotext is not installed''))
     (Dir [(''notes.txt'', File ''a\<newline>\<newline>b\<newline>\<newline>  \<newline>\<newline>c'')]) [] None True =
     Inr [\<lparr>text = ''a''\<rparr>, \<lparr>text = ''b''\<rparr>, \<lparr>text = ''c''\<rparr>]"
proof -
  have n: "suffix_name ''notes.txt'' = ''.txt''"
    by (simp add: suffix_name_def)
  have c: "apply_clean None ''a\<newline>\<newline>b\<newline>\<newline>  \<newline>\<newline>c'' = ''a\<newline>\<newline>b\<newline>\<newline>  \<newline>\<newline>c''"
    by (simp add: apply_clean_def)
  from n c paragraphs_a_b_c[OF n c, of "Inl (ExternalError ''pdftotext is not installed'')"]
  show ?thesis
    by (intro conjI)
qed

text \<open>
  Claim C6 says that for a directory containing only \<open>.txt\<close> files the converter
  without paragraph splitting returns exactly one record for each file. The pattern
  \<open>**/*.txt\<close> also yields directories: when the only file is \<open>a.txt\<close> and next to it
  lies an empty subdirectory named \<open>old.txt\<close>, the path of the subdirectory has the
  suffix \<open>.txt\<close>, line 37 opens it, and \<open>open\<close> raises \<open>IsADirectoryError\<close>: no record
  is returned, not even the one of \<open>a.txt\<close>.
\<close>

theorem directory_named_txt_is_opened:
  "convert_files_to_documents (Inl (ExternalError ''pdftotext is not installed''))
     (Dir [(''a.txt'', File ''one''), (''old.txt'', Dir [])]) [] None False =
   Inl IsADirectoryError"
  by (simp add: convert_files_to_documents_def glob_def select_from_def matches_def suffix_def
      suffix_path_def suffix_name_def read_text_def apply_clean_def)

text \<open>
  Where no directory below the root has a name that a pattern matches and every regular
  file has the suffix \<open>.txt\<close>, the property of claim C6 holds: one record for each file,
  in the order of the enumeration, with the whole content of the file after the cleaning
  function, or the raw content when no cleaning function is given.
\<close>

theorem plain_txt_tree_one_record_per_file:
  assumes "lookup root dir_path = Some n" and "plain_txt_tree n"
  shows "convert_files_to_documents PDFToText root dir_path clean_func False =
           Inr (map (\<lambda>f. \<lparr>text = apply_clean clean_func (snd f)\<rparr>) (files_of dir_path n))"
proof -
  let ?files = "files_of dir_path n"
  let ?paths = "map (\<lambda>f. (fst f, File (snd f))) ?files"
  from plain_txt_tree_glob[OF assms(2), of dir_path] assms(1)
  have g: "glob root dir_path ''.txt'' = ?paths" "glob root dir_path ''.pdf'' = []"
    by (simp_all add: glob_def)
  have en: "enumerate_files PDFToText root dir_path [''.txt'', ''.pdf''] ([], None) =
      Inr (?paths, None)"
    unfolding enumerate_files_eq g by simp
  have "read_text None (fst f, File (snd f)) = Inr (snd f)" if "f \<in> set ?files" for f
    using files_of_suffix[OF assms(2) that] by (simp add: read_text_def)
  then have "map (read_text None) ?paths = map Inr (map snd ?files)"
    by simp
  from convert_paths_from_texts[OF this, of clean_func False "[]"]
  have "convert_paths None clean_func False ?paths [] =
      Inr (map (\<lambda>f. \<lparr>text = apply_clean clean_func (snd f)\<rparr>) ?files)"
    by (simp add: file_records_def comp_def)
  then show ?thesis
    unfolding convert_files_to_documents_def en by simp
qed

theorem plain_txt_tree_one_record_per_file_witness:
  "lookup (Dir [(''corpus'', Dir [(''a.txt'', File ''one''),
                                 (''sub'', Dir [(''c.txt'', File [])]),
                                 (''b.txt'', File ''two\<newline>\<newline>three'')])]) [''corpus''] =
     Some (Dir [(''a.txt'', File ''one''),
                (''sub'', Dir [(''c.txt'', File [])]),
                (''b.txt'', File ''two\<newline>\<newline>three'')]) \<and>
   plain_txt_tree (Dir [(''a.txt'', File ''one''),
                        (''sub'', Dir [(''c.txt'', File [])]),
                        (''b.txt'', File ''two\<newline>\<newline>three'')]) \<and>
   convert_files_to_documents (Inl (ExternalError ''pdftotext is not installed''))
     (Dir [(''corpus'', Dir [(''a.txt'', File ''one''),
                            (''sub'', Dir [(''c.txt'', File [])]),
                            (''b.txt'', File ''two\<newline>\<newline>three'')])]) [''corpus''] (Some upper) False =
     Inr [\<lparr>text = ''ONE''\<rparr>, \<lparr>text = ''TWO\<newline>\<newline>THREE''\<rparr>, \<lparr>text = []\<rparr>]"
proof -
  let ?n = "Dir [(''a.txt'', File ''one''),
                 (''sub'', Dir [(''c.txt'', File [])]),
                 (''b.txt'', File ''two\<newline>\<newline>three'')]"
  have l: "lookup (Dir [(''corpus'', ?n)]) [''corpus''] = Some ?n"
    by simp
  have o: "plain_txt_tree ?n"
    by code_simp
  have f: "map (\<lambda>f. \<lparr>text = apply_clean (Some upper) (snd f)\<rparr>) (files_of [''corpus''] ?n) =
      [\<lparr>text = ''ONE''\<rparr>, \<lparr>text = ''TWO\<newline>\<newline>THREE''\<rparr>, \<lparr>text = []\<rparr>]"
    by code_simp
  from plain_txt_tree_one_record_per_file[OF l o, of "Inl (ExternalError ''pdftotext is not installed'')" "Some upper"]
  have "convert_files_to_documents (Inl (ExternalError ''pdftotext is not installed''))
     (Dir [(''corpus'', ?n)]) [''corpus''] (Some upper) False =
     Inr [\<lparr>text = ''ONE''\<rparr>, \<lparr>text = ''TWO\<newline>\<newline>THREE''\<rparr>, \<lparr>text = []\<rparr>]"
    unfolding f .
  with l o show ?thesis
    by (intro conjI)
qed

text \<open>
  Claim C7. When the cleaning function is the upper-casing of text, every record of a
  run that returns is upper-cased: upper-casing it again changes nothing. This holds with
  and without paragraph splitting, since the cleaner runs on the raw text of the file and
  the paragraphs are cut from its result.
\<close>

theorem upper_cleaner_records:
  assumes "convert_files_to_documents PDFToText root dir_path (Some upper) split_paragraphs = Inr documents"
    and "d \<in> set documents"
  shows "upper (text d) = text d"
proof -
  from assms(1) obtain file_paths pdf_converter where
    cv: "convert_paths pdf_converter (Some upper) split_paragraphs file_paths [] = Inr documents"
    by (auto simp: convert_files_to_documents_def split: sum.splits)
  from convert_paths_member[OF cv assms(2)] obtain raw where
    t: "if split_paragraphs
        then text d \<in> set (str_split (apply_clean (Some upper) raw) ''\<newline>\<newline>'') \<and>
             strip (text d) \<noteq> []
        else text d = apply_clean (Some upper) raw"
    by auto
  have "set (text d) \<subseteq> set (upper raw)"
    using t str_split_chars[of "text d" "upper raw"]
    by (auto simp: apply_clean_def split: if_splits)
  then show ?thesis
    by (rule upper_fixed)
qed

theorem upper_cleaner_records_witness:
  "convert_files_to_documents (Inr (\<lambda>p. Inr ''scanned page''))
     (Dir [(''a.txt'', File ''one\<newline>\<newline>two''), (''b.pdf'', File ''%PDF'')]) [] (Some upper) False =
     Inr [\<lparr>text = ''ONE\<newline>\<newline>TWO''\<rparr>, \<lparr>text = ''SCANNED PAGE''\<rparr>] \<and>
   \<lparr>text = ''SCANNED PAGE''\<rparr> \<in> set [\<lparr>text = ''ONE\<newline>\<newline>TWO''\<rparr>, \<lparr>text = ''SCANNED PAGE''\<rparr>] \<and>
   upper (text \<lparr>text = ''SCANNED PAGE''\<rparr>) = text \<lparr>text = ''SCANNED PAGE''\<rparr>"
proof -
  have run: "convert_files_to_documents (Inr (\<lambda>p. Inr ''scanned page''))
     (Dir [(''a.txt'', File ''one\<newline>\<newline>two''), (''b.pdf'', File ''%PDF'')]) [] (Some upper) False =
     Inr [\<lparr>text = ''ONE\<newline>\<newline>TWO''\<rparr>, \<lparr>text = ''SCANNED PAGE''\<rparr>]"
    by code_simp
  have mem: "\<lparr>text = ''SCANNED PAGE''\<rparr> \<in> set [\<lparr>text = ''ONE\<newline>\<newline>TWO''\<rparr>, \<lparr>text = ''SCANNED PAGE''\<rparr>]"
    by simp
  from run mem upper_cleaner_records[OF run mem] show ?thesis
    by (intro conjI)
qed

text \<open>
  Claim C8 says that every enumerated path has the extension \<open>.txt\<close> or \<open>.pdf\<close>, so that
  the error branch cannot be reached. The pattern \<open>**/*.txt\<close> also matches a file that is
  named \<open>.txt\<close> and nothing more; its \<open>suffix\<close> is empty, and the converter raises the
  unsupported-format exception, with an empty extension in its message.
\<close>

theorem unsupported_on_dot_txt:
  "convert_files_to_documents (Inl (ExternalError ''pdftotext is not installed''))
     (Dir [(''.txt'', File ''notes'')]) [] None False =
   Inl (Exception ''Indexing of  files is not currently supported.'')"
  by (simp add: convert_files_to_documents_def glob_def select_from_def matches_def suffix_def
      suffix_path_def suffix_name_def read_text_def apply_clean_def)

text \<open>
  Claim C9. When the directory path names nothing in the file system, the converter
  raises nothing and returns the empty list of records, whatever the cleaning function and
  the flag: both patterns yield no path.
\<close>

theorem missing_directory_no_documents:
  "lookup root dir_path = None \<Longrightarrow>
   convert_files_to_documents PDFToText root dir_path clean_func split_paragraphs = Inr []"
  by (simp add: convert_files_to_documents_def glob_def)

theorem missing_directory_no_documents_witness:
  "lookup (Dir [(''data'', Dir [])]) [''corpus''] = None \<and>
   convert_files_to_documents (Inl (ExternalError ''pdftotext is not installed''))
     (Dir [(''data'', Dir [])]) [''corpus''] (Some upper) True = Inr []"
proof -
  have missing: "lookup (Dir [(''data'', Dir [])]) [''corpus''] = None"
    by simp
  from missing missing_directory_no_documents[OF missing] show ?thesis
    by (intro conjI)
qed

text \<open>
  Claim C10. The records of a run that returns are those of the files the \<open>.txt\<close> pattern
  yields, followed by those of the files the \<open>.pdf\<close> pattern yields: every path of the first
  group has the suffix \<open>.txt\<close>, every path of the second the suffix \<open>.pdf\<close>, the files
  of a group keep the order of the enumeration, and the records of one file keep the order
  of its paragraphs (\<open>file_records\<close>).
\<close>

theorem txt_records_before_pdf_records:
  assumes "convert_files_to_documents PDFToText root dir_path clean_func split_paragraphs = Inr documents"
  shows "\<exists>pdf_converter txts pdfs.
           map (read_text pdf_converter) (glob root dir_path ''.txt'') = map Inr txts \<and>
           map (read_text pdf_converter) (glob root dir_path ''.pdf'') = map Inr pdfs \<and>
           (\<forall>p \<in> set (glob root dir_path ''.txt''). suffix_path (fst p) = ''.txt'') \<and>
           (\<forall>p \<in> set (glob root dir_path ''.pdf''). suffix_path (fst p) = ''.pdf'') \<and>
           documents = concat (map (file_records clean_func split_paragraphs) txts) @
                       concat (map (file_records clean_func split_paragraphs) pdfs)"
proof -
  let ?T = "glob root dir_path ''.txt''" and ?P = "glob root dir_path ''.pdf''"
  from assms obtain file_paths pdf_converter where
    en: "enumerate_files PDFToText root dir_path [''.txt'', ''.pdf''] ([], None) =
           Inr (file_paths, pdf_converter)"
    and cv: "convert_paths pdf_converter clean_func split_paragraphs file_paths [] = Inr documents"
    by (auto simp: convert_files_to_documents_def split: sum.splits)
  from enumerate_files_paths[OF en] have fp: "file_paths = ?T @ ?P" .
  from convert_paths_records[OF cv] obtain raws where
    raws: "map (read_text pdf_converter) (?T @ ?P) = map Inr raws"
    and docs: "documents = concat (map (file_records clean_func split_paragraphs) raws)"
    unfolding fp by auto
  define txts where "txts = take (length ?T) raws"
  define pdfs where "pdfs = drop (length ?T) raws"
  from raws have len: "length raws = length ?T + length ?P"
    by (metis length_append length_map)
  from raws have "map (read_text pdf_converter) ?T @ map (read_text pdf_converter) ?P =
      map Inr txts @ map Inr pdfs"
    by (simp add: txts_def pdfs_def flip: map_append)
  moreover have "length (map (read_text pdf_converter) ?T) = length (map Inr txts :: (error + string) list)"
    using len by (simp add: txts_def)
  ultimately have t: "map (read_text pdf_converter) ?T = map Inr txts"
    and p: "map (read_text pdf_converter) ?P = map Inr pdfs"
    by simp_all
  have st: "\<forall>e \<in> set ?T. suffix_path (fst e) = ''.txt''"
    using texts_suffix[OF t] glob_txt_suffix[of _ root dir_path] by fastforce
  have sp: "\<forall>e \<in> set ?P. suffix_path (fst e) = ''.pdf''"
    using texts_suffix[OF p] glob_pdf_suffix[of _ root dir_path] by fastforce
  have "raws = txts @ pdfs"
    by (simp add: txts_def pdfs_def)
  with docs have "documents = concat (map (file_records clean_func split_paragraphs) txts) @
                       concat (map (file_records clean_func split_paragraphs) pdfs)"
    by simp
  with t p st sp show ?thesis
    by blast
qed

theorem txt_records_before_pdf_records_witness:
  "convert_files_to_documents (Inr (\<lambda>p. Inr ''scan''))
     (Dir [(''b.pdf'', File ''%PDF''), (''a.txt'', File ''one\<newline>\<newline>two'')]) [] None True =
     Inr [\<lparr>text = ''one''\<rparr>, \<lparr>text = ''two''\<rparr>, \<lparr>text = ''scan''\<rparr>] \<and>
   (\<exists>pdf_converter txts pdfs.
      map (read_text pdf_converter)
        (glob (Dir [(''b.pdf'', File ''%PDF''), (''a.txt'', File ''one\<newline>\<newline>two'')]) [] ''.txt'') =
        map Inr txts \<and>
      map (read_text pdf_converter)
        (glob (Dir [(''b.pdf'', File ''%PDF''), (''a.txt'', File ''one\<newline>\<newline>two'')]) [] ''.pdf'') =
        map Inr pdfs \<and>
      (\<forall>p \<in> set (glob (Dir [(''b.pdf'', File ''%PDF''), (''a.txt'', File ''one\<newline>\<newline>two'')]) [] ''.txt'').
         suffix_path (fst p) = ''.txt'') \<and>
      (\<forall>p \<in> set (glob (Dir [(''b.pdf'', File ''%PDF''), (''a.txt'', File ''one\<newline>\<newline>two'')]) [] ''.pdf'').
         suffix_path (fst p) = ''.pdf'') \<and>
      [\<lparr>text = ''one''\<rparr>, \<lparr>text = ''two''\<rparr>, \<lparr>text = ''scan''\<rparr>] =
        concat (map (file_records None True) txts) @ concat (map (file_records None True) pdfs))"
proof -
  have run: "convert_files_to_documents (Inr (\<lambda>p. Inr ''scan''))
     (Dir [(''b.pdf'', File ''%PDF''), (''a.txt'', File ''one\<newline>\<newline>two'')]) [] None True =
     Inr [\<lparr>text = ''one''\<rparr>, \<lparr>text = ''two''\<rparr>, \<lparr>text = ''scan''\<rparr>]"
    by code_simp
  from run txt_records_before_pdf_records[OF run] show ?thesis
    by (intro conjI)
qed

section \<open>Properties of \<open>fetch_archive_from_http\<close>\<close>

text \<open>
  Claim C2. When the output directory exists and is empty and the URL ends neither with
  \<open>.zip\<close> nor with \<open>.tar.gz\<close>, the fetcher logs, creates the temporary file, calls
  \<open>http_get\<close> and deletes the temporary file: no extraction is run and the file system is
  the one it started from. It returns true whenever \<open>http_get\<close> returns; an error of
  \<open>http_get\<close> leaves the function as it is.
\<close>

theorem unknown_suffix_downloads_only:
  assumes "lookup (fs w) output_dir = Some (Dir [])"
    and "\<not> suffix ''.zip'' url" and "\<not> suffix ''.tar.gz'' url"
  shows "fetch_archive_from_http X url output_dir proxies w =
     (w\<lparr>temp_file := None,
        trace := trace w @ [LogFetching url output_dir, TempCreate, HttpGet url, TempDelete]\<rparr>,
      case http_get X url proxies of Inl e \<Rightarrow> Inl e | Inr content \<Rightarrow> Inr True)"
proof -
  from assms(1) have ex: "exists_path (fs w) output_dir"
    by (simp add: exists_path_def)
  from assms(1) have em: "glob (fs w) output_dir [] = []"
    by (rule empty_dir_glob)
  show ?thesis
    by (cases "http_get X url proxies")
      (simp_all add: fetch_archive_from_http_def ex em with_temp_file_def emit_def
        download_and_extract_plain[OF assms(2,3)])
qed

theorem unknown_suffix_downloads_only_witness:
  "lookup (fs \<lparr>fs = Dir [(''data'', Dir [])], temp_file = None, trace = []\<rparr>) [''data''] =
     Some (Dir []) \<and>
   \<not> suffix ''.zip'' ''http://example.org/corpus.rar'' \<and>
   \<not> suffix ''.tar.gz'' ''http://example.org/corpus.rar'' \<and>
   fetch_archive_from_http sample_externals ''http://example.org/corpus.rar'' [''data''] None
     \<lparr>fs = Dir [(''data'', Dir [])], temp_file = None, trace = []\<rparr> =
     (\<lparr>fs = Dir [(''data'', Dir [])], temp_file = None,
       trace = [LogFetching ''http://example.org/corpus.rar'' [''data''], TempCreate,
                HttpGet ''http://example.org/corpus.rar'', TempDelete]\<rparr>,
      Inr True)"
proof -
  have d: "lookup (fs \<lparr>fs = Dir [(''data'', Dir [])], temp_file = None, trace = []\<rparr>) [''data''] =
     Some (Dir [])"
    by simp
  have z: "\<not> suffix ''.zip'' ''http://example.org/corpus.rar''"
    by (simp add: suffix_to_prefix)
  have t: "\<not> suffix ''.tar.gz'' ''http://example.org/corpus.rar''"
    by (simp add: suffix_to_prefix)
  from unknown_suffix_downloads_only[OF d z t, of sample_externals None] d z t
  show ?thesis
    by (simp add: sample_externals_def)
qed

text \<open>
  Claim C3. On every path of the fetcher that creates the temporary file, whether the
  block ends normally, the extraction raises or the download raises, the temporary file
  is gone when the call returns or the error leaves it, and its deletion is the last
  effect of the call.
\<close>

theorem temp_file_deleted:
  assumes "fetch_archive_from_http X url output_dir proxies w = (w', r)"
    and "TempCreate \<in> set (drop (length (trace w)) (trace w'))"
  shows "temp_file w' = None \<and> last (trace w') = TempDelete"
proof -
  have body: "\<And>v. \<exists>v' r'. with_temp_file (download_and_extract X url output_dir proxies) v = (v', r') \<and>
      temp_file v' = None \<and> last (trace v') = TempDelete"
    by (auto simp: with_temp_file_def emit_def split: prod.splits)
  show ?thesis
  proof (cases "exists_path (fs w) output_dir")
    case True
    show ?thesis
    proof (cases "glob (fs w) output_dir [] = []")
      case True
      with \<open>exists_path (fs w) output_dir\<close> assms(1) body[of "emit (LogFetching url output_dir) w"]
      show ?thesis
        by (auto simp: fetch_archive_from_http_def split: prod.splits option.splits)
    next
      case False
      with \<open>exists_path (fs w) output_dir\<close> assms show ?thesis
        by (auto simp: fetch_archive_from_http_def emit_def)
    qed
  next
    case False
    show ?thesis
    proof (cases "mkdir_parents (fs w) output_dir")
      case (Inl e)
      with False assms show ?thesis
        by (auto simp: fetch_archive_from_http_def)
    next
      case (Inr root)
      let ?w1 = "emit (Mkdir output_dir) (w\<lparr>fs := root\<rparr>)"
      show ?thesis
      proof (cases "glob root output_dir [] = []")
        case True
        with False Inr assms(1) body[of "emit (LogFetching url output_dir) ?w1"]
        show ?thesis
          by (auto simp: fetch_archive_from_http_def emit_def split: prod.splits option.splits)
      next
        case nonempty: False
        with False Inr assms show ?thesis
          by (auto simp: fetch_archive_from_http_def emit_def)
      qed
    qed
  qed
qed

theorem temp_file_deleted_witness:
  "fetch_archive_from_http sample_externals ''http://example.org/corpus.tar.gz'' [''data''] None
     \<lparr>fs = Dir [], temp_file = None, trace = []\<rparr> =
     (\<lparr>fs = Dir [(''data'', Dir [])], temp_file = None,
       trace = [Mkdir [''data''], LogFetching ''http://example.org/corpus.tar.gz'' [''data''],
                TempCreate, HttpGet ''http://example.org/corpus.tar.gz'', ExtractTar [''data''],
                TempDelete]\<rparr>,
      Inl (ExternalError ''ReadError'')) \<and>
   TempCreate \<in> set (drop (length (trace \<lparr>fs = Dir [], temp_file = None, trace = []\<rparr>))
     (trace \<lparr>fs = Dir [(''data'', Dir [])], temp_file = None,
       trace = [Mkdir [''data''], LogFetching ''http://example.org/corpus.tar.gz'' [''data''],
                TempCreate, HttpGet ''http://example.org/corpus.tar.gz'', ExtractTar [''data''],
                TempDelete]\<rparr>)) \<and>
   temp_file \<lparr>fs = Dir [(''data'', Dir [])], temp_file = None,
       trace = [Mkdir [''data''], LogFetching ''http://example.org/corpus.tar.gz'' [''data''],
                TempCreate, HttpGet ''http://example.org/corpus.tar.gz'', ExtractTar [''data''],
                TempDelete]\<rparr> = None \<and>
   last (trace \<lparr>fs = Dir [(''data'', Dir [])], temp_file = None,
       trace = [Mkdir [''data''], LogFetching ''http://example.org/corpus.tar.gz'' [''data''],
                TempCreate, HttpGet ''http://example.org/corpus.tar.gz'', ExtractTar [''data''],
                TempDelete]\<rparr>) = TempDelete"
proof -
  have run: "fetch_archive_from_http sample_externals ''http://example.org/corpus.tar.gz'' [''data''] None
     \<lparr>fs = Dir [], temp_file = None, trace = []\<rparr> =
     (\<lparr>fs = Dir [(''data'', Dir [])], temp_file = None,
       trace = [Mkdir [''data''], LogFetching ''http://example.org/corpus.tar.gz'' [''data''],
                TempCreate, HttpGet ''http://example.org/corpus.tar.gz'', ExtractTar [''data''],
                TempDelete]\<rparr>,
      Inl (ExternalError ''ReadError''))"
    by (simp add: fetch_archive_from_http_def exists_path_def glob_def select_from_def
        with_temp_file_def download_and_extract_def url_tail_def emit_def sample_externals_def)
  have created: "TempCreate \<in> set (drop (length (trace \<lparr>fs = Dir [], temp_file = None, trace = []\<rparr>))
     (trace \<lparr>fs = Dir [(''data'', Dir [])], temp_file = None,
       trace = [Mkdir [''data''], LogFetching ''http://example.org/corpus.tar.gz'' [''data''],
                TempCreate, HttpGet ''http://example.org/corpus.tar.gz'', ExtractTar [''data''],
                TempDelete]\<rparr>))"
    by simp
  from run created temp_file_deleted[OF run created] show ?thesis
    by (intro conjI) simp_all
qed



end
